theory Spec2Isabelle
  imports Main "HOL-Library.Word"
begin

unbundle bit_operations_syntax

section \<open>The CREngine shim (crates/crengine/src/shim)\<close>

text \<open>
  The only program code of the repository is the C shim around CREngine: a document
  handle holding a page count, a stub layout pass and a stub renderer that fills a
  caller-supplied buffer. This theory embeds it function by function.

  Conventions of the embedding:
  \<^item> \<open>uint32_t\<close> is \<open>32 word\<close> and \<open>uint8_t\<close> is \<open>8 word\<close>, so \<open>+\<close> and \<open>*\<close> wrap
    as the C arithmetic does (\<open>int\<close> has 32 bits, so \<open>uint32_t\<close> operands are not
    promoted);
  \<^item> a pointer to a struct is an \<open>option\<close> (\<open>None\<close> is \<open>NULL\<close>); the struct is
    passed as a value, which assumes that the pixel buffer does not overlap the
    descriptor or the document;
  \<^item> the byte pointer \<open>data\<close> is an address (a \<open>nat\<close>, \<open>0\<close> is \<open>NULL\<close>) into a
    byte-addressed memory, and \<open>data[i]\<close> is the byte at address \<open>data + i\<close>;
  \<^item> a function that writes through a pointer returns the memory or the struct it
    has written, next to its result code.
\<close>

subsection \<open>Types of shim.h\<close>

type_synonym u8 = "8 word"
type_synonym u32 = "32 word"

datatype CreResult =
    CRE_RESULT_OK
  | CRE_RESULT_UNSUPPORTED
  | CRE_RESULT_INVALID_ARGUMENT
  | CRE_RESULT_INTERNAL_ERROR

datatype CreSurfaceFormat =
    CRE_SURFACE_FORMAT_INVALID
  | CRE_SURFACE_FORMAT_GRAY8
  | CRE_SURFACE_FORMAT_MONOCHROME

record CreDocument =
  pages :: u32

record CreSize =
  width :: u32
  height :: u32

text \<open>The field \<open>size\<close> of the C struct is \<open>size_s\<close> here (\<open>size\<close> is a constant of HOL).\<close>

record CreRenderSurface =
  data :: nat
  stride :: u32
  size_s :: CreSize
  format :: CreSurfaceFormat

record CreLayoutConfig =
  font_size :: u32
  line_height_percent :: u32
  page_margin_dp :: u32

type_synonym memory = "nat \<Rightarrow> u8"

subsection \<open>validate_surface\<close>

fun validate_surface :: "CreRenderSurface option \<Rightarrow> CreResult" where
  "validate_surface None = CRE_RESULT_INVALID_ARGUMENT"
| "validate_surface (Some surface) =
     (if data surface = 0 \<or> stride surface = 0 then CRE_RESULT_INVALID_ARGUMENT
      else if width (size_s surface) = 0 \<or> height (size_s surface) = 0
        then CRE_RESULT_INVALID_ARGUMENT
      else if format surface = CRE_SURFACE_FORMAT_INVALID then CRE_RESULT_INVALID_ARGUMENT
      else CRE_RESULT_OK)"

subsection \<open>cre_open_document, cre_page_count, cre_layout_document\<close>

text \<open>
  \<open>cre_open_document path alloc out_status\<close>: \<open>path\<close> is \<open>None\<close> for a null path,
  \<open>alloc\<close> tells whether \<open>malloc\<close> returns a block, and \<open>out_status\<close> tells whether
  the status pointer is non-null. The result is the handle (\<open>None\<close> is \<open>NULL\<close>) and
  the value stored through \<open>out_status\<close> (\<open>None\<close> when nothing is stored).
\<close>

definition cre_open_document ::
  "string option \<Rightarrow> bool \<Rightarrow> bool \<Rightarrow> CreDocument option \<times> CreResult option" where
  "cre_open_document path alloc out_status =
     (case path of
        None \<Rightarrow> (None, if out_status then Some CRE_RESULT_INVALID_ARGUMENT else None)
      | Some p \<Rightarrow>
          if \<not> alloc then (None, if out_status then Some CRE_RESULT_INTERNAL_ERROR else None)
          else (Some \<lparr>pages = 0\<rparr>, if out_status then Some CRE_RESULT_OK else None))"

text \<open>
  \<open>cre_page_count doc out_pages\<close>: \<open>out_pages\<close> is the cell the pointer refers to
  (\<open>None\<close> for a null pointer); the second component is that cell afterwards.
\<close>

definition cre_page_count :: "CreDocument option \<Rightarrow> u32 option \<Rightarrow> CreResult \<times> u32 option" where
  "cre_page_count doc out_pages =
     (case (doc, out_pages) of
        (Some d, Some old) \<Rightarrow> (CRE_RESULT_OK, Some (pages d))
      | _ \<Rightarrow> (CRE_RESULT_INVALID_ARGUMENT, out_pages))"

text \<open>\<open>cre_layout_document doc config\<close> returns the result code and the document afterwards.\<close>

definition cre_layout_document ::
  "CreDocument option \<Rightarrow> CreLayoutConfig option \<Rightarrow> CreResult \<times> CreDocument option" where
  "cre_layout_document doc config =
     (case (doc, config) of
        (Some d, Some c) \<Rightarrow> (CRE_RESULT_OK, Some (d\<lparr>pages := 1\<rparr>))
      | _ \<Rightarrow> (CRE_RESULT_INVALID_ARGUMENT, doc))"

subsection \<open>cre_render_page\<close>

text \<open>
  The inner loop \<open>for (x = 0; x < stride; x++) data[y * stride + x] = value\<close>, from
  the current \<open>x\<close>. The index \<open>y * stride + x\<close> is computed in \<open>uint32_t\<close>.
\<close>

function fill_row :: "nat \<Rightarrow> u32 \<Rightarrow> u32 \<Rightarrow> u8 \<Rightarrow> u32 \<Rightarrow> memory \<Rightarrow> memory" where
  "fill_row dat strd y val x mem =
     (if x < strd
      then fill_row dat strd y val (x + 1) (mem(dat + unat (y * strd + x) := val))
      else mem)"
  by pat_completeness auto
termination
proof (relation "measure (\<lambda>(dat, strd, y, val, x, mem). unat strd - unat x)")
  show "wf (measure (\<lambda>(dat, strd, y, val, x, mem). unat strd - unat x))"
    by simp
next
  fix dat :: nat and strd y :: u32 and val :: u8 and x :: u32 and mem :: memory
  assume "x < strd"
  then have "unat strd - unat (x + 1) < unat strd - unat x"
    by unat_arith
  then show "((dat, strd, y, val, x + 1, mem(dat + unat (y * strd + x) := val)),
      (dat, strd, y, val, x, mem)) \<in> measure (\<lambda>(dat, strd, y, val, x, mem). unat strd - unat x)"
    by simp
qed

text \<open>
  The outer loop \<open>for (y = 0; y < rows; y++)\<close>, from the current \<open>y\<close>, with
  \<open>value = (uint8_t)((page_index + y) & 0xFF)\<close>.
\<close>

function render_rows :: "nat \<Rightarrow> u32 \<Rightarrow> u32 \<Rightarrow> u32 \<Rightarrow> u32 \<Rightarrow> memory \<Rightarrow> memory" where
  "render_rows dat page_index rows strd y mem =
     (if y < rows
      then render_rows dat page_index rows strd (y + 1)
             (fill_row dat strd y (ucast ((page_index + y) AND 0xFF)) 0 mem)
      else mem)"
  by pat_completeness auto
termination
proof (relation "measure (\<lambda>(dat, page_index, rows, strd, y, mem). unat rows - unat y)")
  show "wf (measure (\<lambda>(dat, page_index, rows, strd, y, mem). unat rows - unat y))"
    by simp
next
  fix dat :: nat and page_index rows strd y :: u32 and mem :: memory
  assume "y < rows"
  then have "unat rows - unat (y + 1) < unat rows - unat y"
    by unat_arith
  then show "((dat, page_index, rows, strd, y + 1,
        fill_row dat strd y (ucast ((page_index + y) AND 0xFF)) 0 mem),
      (dat, page_index, rows, strd, y, mem))
      \<in> measure (\<lambda>(dat, page_index, rows, strd, y, mem). unat rows - unat y)"
    by simp
qed

text \<open>
  \<open>cre_render_page doc page_index surface mem\<close> returns the result code and the
  memory afterwards. The loops run only after \<open>validate_surface\<close> has returned
  \<open>CRE_RESULT_OK\<close>, which it never does on a null surface, so \<open>the surface\<close> is
  the descriptor the pointer refers to.
\<close>

definition cre_render_page ::
  "CreDocument option \<Rightarrow> u32 \<Rightarrow> CreRenderSurface option \<Rightarrow> memory \<Rightarrow> CreResult \<times> memory" where
  "cre_render_page doc page_index surface mem =
     (case doc of
        None \<Rightarrow> (CRE_RESULT_INVALID_ARGUMENT, mem)
      | Some d \<Rightarrow>
          if page_index \<ge> pages d then (CRE_RESULT_INVALID_ARGUMENT, mem)
          else
            let surface_status = validate_surface surface in
            if surface_status \<noteq> CRE_RESULT_OK then (surface_status, mem)
            else
              let s = the surface;
                  rows = height (size_s s);
                  strd = stride s
              in (CRE_RESULT_OK, render_rows (data s) page_index rows strd 0 mem))"

declare fill_row.simps [simp del] render_rows.simps [simp del]

section \<open>Properties of the renderer's loops\<close>

subsection \<open>The byte written in row \<open>y\<close>\<close>

lemma low_byte_mask: "(0xFF :: u32) = mask 8"
  by (simp add: mask_eq_exp_minus_1)

lemma ucast_low_byte: "(ucast (w AND (0xFF :: u32)) :: u8) = ucast w"
  unfolding low_byte_mask by (rule bit_word_eqI) (auto simp: bit_simps)

lemma of_nat_take_bit_u8: "(of_nat (take_bit 32 n) :: u8) = of_nat n"
  by (simp only: word_of_nat_eq_iff) simp

lemma ucast_add_u8: "(ucast (p + y :: u32) :: u8) = of_nat (unat p + unat y)"
proof -
  have "(ucast (p + y) :: u8) = of_nat (unat (p + y))"
    by simp
  also have "unat (p + y) = take_bit 32 (unat p + unat y)"
    by (simp add: unat_word_ariths take_bit_eq_mod)
  finally show ?thesis
    by (simp only: of_nat_take_bit_u8)
qed

text \<open>The 32-bit sum wraps, but the byte kept is the sum of the two numbers modulo 256.\<close>

lemma byte_value: "(ucast ((p + y) AND (0xFF :: u32)) :: u8) = of_nat (unat p + unat y)"
  by (simp only: ucast_low_byte ucast_add_u8)

lemma byte_value_unat:
  "unat (ucast ((p + y) AND (0xFF :: u32)) :: u8) = (unat p + unat y) mod 256"
  by (simp only: byte_value unat_of_nat) simp

subsection \<open>The inner loop\<close>

lemma word_le_step: "(x :: u32) < s \<Longrightarrow> x \<le> x' \<longleftrightarrow> x = x' \<or> x + 1 \<le> x'"
  by unat_arith

text \<open>
  A byte is \<open>val\<close> after the inner loop when its address is \<open>dat\<close> plus the 32-bit
  index of one of the remaining columns, and is unchanged otherwise.
\<close>

lemma fill_row_at:
  "fill_row dat strd y val x mem a =
     (if \<exists>x'. x \<le> x' \<and> x' < strd \<and> a = dat + unat (y * strd + x') then val else mem a)"
proof (induction dat strd y val x mem rule: fill_row.induct)
  case (1 dat strd y val x mem)
  show ?case
  proof (cases "x < strd")
    case True
    have split: "(\<exists>x'. x \<le> x' \<and> x' < strd \<and> a = dat + unat (y * strd + x')) \<longleftrightarrow>
        a = dat + unat (y * strd + x)
        \<or> (\<exists>x'. x + 1 \<le> x' \<and> x' < strd \<and> a = dat + unat (y * strd + x'))"
      using True word_le_step [OF True] by auto
    have "fill_row dat strd y val x mem a =
        fill_row dat strd y val (x + 1) (mem(dat + unat (y * strd + x) := val)) a"
      using True by (subst fill_row.simps) simp
    also have "\<dots> = (if \<exists>x'. x + 1 \<le> x' \<and> x' < strd \<and> a = dat + unat (y * strd + x')
        then val else (mem(dat + unat (y * strd + x) := val)) a)"
      using True by (rule "1.IH")
    finally have eq: "fill_row dat strd y val x mem a =
        (if \<exists>x'. x + 1 \<le> x' \<and> x' < strd \<and> a = dat + unat (y * strd + x')
         then val else (mem(dat + unat (y * strd + x) := val)) a)" .
    show ?thesis
      unfolding eq split by auto
  next
    case False
    then have "\<not> (\<exists>x'. x \<le> x' \<and> x' < strd)"
      by auto
    with False show ?thesis
      by (subst fill_row.simps) auto
  qed
qed

lemma fill_row_outside:
  assumes "a < dat \<or> dat + 2 ^ 32 \<le> a"
  shows "fill_row dat strd y val x mem a = mem a"
proof -
  have "unat (y * strd + x') < 2 ^ 32" for x'
    using unsigned_less [of "y * strd + x'"] by simp
  then have "a \<noteq> dat + unat (y * strd + x')" for x'
    using assms by (auto simp: not_le [symmetric])
  then show ?thesis
    by (simp add: fill_row_at)
qed

subsection \<open>The outer loop\<close>

text \<open>No byte below \<open>dat\<close> or from \<open>dat + 2^32\<close> on is written: the index has 32 bits.\<close>

lemma render_rows_outside:
  "a < dat \<or> dat + 2 ^ 32 \<le> a \<Longrightarrow> render_rows dat page_index rows strd y mem a = mem a"
proof (induction dat page_index rows strd y mem rule: render_rows.induct)
  case (1 dat page_index rows strd y mem)
  show ?case
  proof (cases "y < rows")
    case True
    have "render_rows dat page_index rows strd y mem a =
        render_rows dat page_index rows strd (y + 1)
          (fill_row dat strd y (ucast ((page_index + y) AND 0xFF)) 0 mem) a"
      using True by (subst render_rows.simps) simp
    also have "\<dots> = fill_row dat strd y (ucast ((page_index + y) AND 0xFF)) 0 mem a"
      using True "1.prems" by (rule "1.IH")
    also have "\<dots> = mem a"
      using "1.prems" by (rule fill_row_outside)
    finally show ?thesis .
  next
    case False
    then show ?thesis
      by (subst render_rows.simps) simp
  qed
qed

text \<open>
  The last row is always in place at its 32-bit index: nothing is written after it.
\<close>

lemma render_rows_last_row:
  "y < rows \<Longrightarrow> x < strd \<Longrightarrow>
     render_rows dat page_index rows strd y mem (dat + unat ((rows - 1) * strd + x)) =
       ucast ((page_index + (rows - 1)) AND 0xFF)"
proof (induction dat page_index rows strd y mem rule: render_rows.induct)
  case (1 dat page_index rows strd y mem)
  let ?mem = "fill_row dat strd y (ucast ((page_index + y) AND 0xFF)) 0 mem"
  have unfold: "render_rows dat page_index rows strd y mem =
      render_rows dat page_index rows strd (y + 1) ?mem"
    using "1.prems"(1) by (subst render_rows.simps) simp
  show ?case
  proof (cases "y + 1 < rows")
    case True
    with "1.IH" [OF "1.prems"(1) True "1.prems"(2)] unfold show ?thesis
      by simp
  next
    case False
    with "1.prems"(1) have last: "y = rows - 1"
      by unat_arith
    from False have "render_rows dat page_index rows strd (y + 1) ?mem = ?mem"
      by (subst render_rows.simps) simp
    with unfold have "render_rows dat page_index rows strd y mem = ?mem"
      by simp
    moreover have "?mem (dat + unat (y * strd + x)) = ucast ((page_index + y) AND 0xFF)"
      using "1.prems"(2) by (subst fill_row_at) auto
    ultimately show ?thesis
      by (simp add: last)
  qed
qed

subsection \<open>Surfaces of at most \<open>2^32\<close> bytes\<close>

text \<open>
  When \<open>rows * stride\<close> does not exceed \<open>2^32\<close>, the index \<open>y * stride + x\<close> of
  every pixel is computed without wrap-around.
\<close>

lemma index_no_wrap:
  fixes y strd x rows :: u32
  assumes "y < rows" and "x < strd" and "unat rows * unat strd \<le> 2 ^ 32"
  shows "unat (y * strd + x) = unat y * unat strd + unat x"
proof -
  from assms(1,2) have yn: "Suc (unat y) \<le> unat rows" and xn: "unat x < unat strd"
    by (simp_all add: word_less_nat_alt)
  have "unat y * unat strd + unat x < Suc (unat y) * unat strd"
    using xn by simp
  also have "\<dots> \<le> unat rows * unat strd"
    using yn by (rule mult_le_mono1)
  finally have bound: "unat y * unat strd + unat x < 2 ^ 32"
    using assms(3) by simp
  then have "unat y * unat strd < 2 ^ LENGTH(32)"
    by simp
  then have m: "unat (y * strd) = unat y * unat strd"
    by (simp only: unat_mult_lem)
  from bound have "unat (y * strd) + unat x < 2 ^ LENGTH(32)"
    by (simp add: m)
  then have "unat (y * strd + x) = unat (y * strd) + unat x"
    by (simp only: unat_add_lem)
  with m show ?thesis
    by simp
qed

lemma row_range:
  fixes y strd rows :: u32
  assumes "y < rows" and "unat rows * unat strd \<le> 2 ^ 32"
  shows "(\<exists>x. 0 \<le> x \<and> x < strd \<and> a = dat + unat (y * strd + x)) \<longleftrightarrow>
     dat + unat y * unat strd \<le> a \<and> a < dat + Suc (unat y) * unat strd"
proof
  assume "\<exists>x. 0 \<le> x \<and> x < strd \<and> a = dat + unat (y * strd + x)"
  then obtain x where x: "x < strd" and a: "a = dat + unat (y * strd + x)"
    by blast
  from x have "unat x < unat strd"
    by (simp add: word_less_nat_alt)
  with a index_no_wrap [OF assms(1) x assms(2)]
  show "dat + unat y * unat strd \<le> a \<and> a < dat + Suc (unat y) * unat strd"
    by simp
next
  assume r: "dat + unat y * unat strd \<le> a \<and> a < dat + Suc (unat y) * unat strd"
  define k where "k = a - dat - unat y * unat strd"
  from r have k: "k < unat strd" and a: "a = dat + (unat y * unat strd + k)"
    by (auto simp: k_def)
  have "unat strd < 2 ^ 32"
    using unsigned_less [of strd] by simp
  with k have uk: "unat (of_nat k :: u32) = k"
    by (simp add: unat_of_nat)
  with k have lt: "(of_nat k :: u32) < strd"
    by (simp add: word_less_nat_alt)
  from index_no_wrap [OF assms(1) lt assms(2)] uk a
  have "a = dat + unat (y * strd + of_nat k)"
    by simp
  with lt show "\<exists>x. 0 \<le> x \<and> x < strd \<and> a = dat + unat (y * strd + x)"
    by auto
qed

text \<open>
  The outer loop from row \<open>y\<close> on: the bytes of the rows \<open>y, \<dots>, rows - 1\<close> hold the
  pattern, every other byte is unchanged.
\<close>

lemma render_rows_from:
  assumes "unat rows * unat strd \<le> 2 ^ 32" and "y \<le> rows"
  shows "render_rows dat page_index rows strd y mem a =
     (if dat + unat y * unat strd \<le> a \<and> a < dat + unat rows * unat strd
      then of_nat (unat page_index + (a - dat) div unat strd) else mem a)"
  using assms
proof (induction dat page_index rows strd y mem rule: render_rows.induct)
  case (1 dat page_index rows strd y mem)
  let ?mem = "fill_row dat strd y (ucast ((page_index + y) AND 0xFF)) 0 mem"
  show ?case
  proof (cases "y < rows")
    case True
    then have suc: "unat (y + 1) = Suc (unat y)" and le: "y + 1 \<le> rows"
      by unat_arith+
    from True have yn: "Suc (unat y) \<le> unat rows"
      by (simp add: word_less_nat_alt)
    then have top: "Suc (unat y) * unat strd \<le> unat rows * unat strd"
      by (rule mult_le_mono1)
    have row: "?mem a =
        (if dat + unat y * unat strd \<le> a \<and> a < dat + Suc (unat y) * unat strd
         then of_nat (unat page_index + unat y) else mem a)"
      by (simp only: fill_row_at row_range [OF True "1.prems"(1)] byte_value)
    have "render_rows dat page_index rows strd y mem a =
        render_rows dat page_index rows strd (y + 1) ?mem a"
      using True by (subst render_rows.simps) simp
    also have "\<dots> =
        (if dat + Suc (unat y) * unat strd \<le> a \<and> a < dat + unat rows * unat strd
         then of_nat (unat page_index + (a - dat) div unat strd) else ?mem a)"
      using "1.IH" [OF True "1.prems"(1) le] by (simp only: suc)
    finally have eq: "render_rows dat page_index rows strd y mem a =
        (if dat + Suc (unat y) * unat strd \<le> a \<and> a < dat + unat rows * unat strd
         then of_nat (unat page_index + (a - dat) div unat strd) else ?mem a)" .
    show ?thesis
    proof (cases "dat + unat y * unat strd \<le> a \<and> a < dat + Suc (unat y) * unat strd")
      case inrow: True
      define k where "k = a - dat - unat y * unat strd"
      from inrow have k: "k < unat strd" and a: "a - dat = k + unat y * unat strd"
        by (auto simp: k_def)
      from k have "(a - dat) div unat strd = unat y"
        by (simp add: a)
      with inrow top show ?thesis
        unfolding eq row by simp
    next
      case False
      then show ?thesis
        unfolding eq row by auto
    qed
  next
    case False
    with "1.prems"(2) have "y = rows"
      by simp
    then show ?thesis
      by (subst render_rows.simps) auto
  qed
qed

text \<open>
  So on a surface of at most \<open>2^32\<close> bytes a successful \<open>cre_render_page\<close> leaves
  \<open>(page_index + y) mod 256\<close> in every byte \<open>y * stride + x\<close> of the \<open>height\<close> rows
  and changes no other byte; the result does not depend on the document or on the
  surface's width and format.
\<close>

lemma cre_render_page_fills_rows:
  assumes "cre_render_page doc page_index (Some s) mem = (CRE_RESULT_OK, mem')"
    and "unat (height (size_s s)) * unat (stride s) \<le> 2 ^ 32"
  shows "mem' a =
     (if data s \<le> a \<and> a < data s + unat (height (size_s s)) * unat (stride s)
      then of_nat (unat page_index + (a - data s) div unat (stride s)) else mem a)"
proof -
  from assms(1) have "mem' = render_rows (data s) page_index (height (size_s s)) (stride s) 0 mem"
    by (auto simp: cre_render_page_def Let_def split: option.splits if_splits)
  with render_rows_from [OF assms(2), of 0 "data s" page_index mem a] show ?thesis
    by simp
qed

subsection \<open>A run\<close>

text \<open>
  Page 0 of a one-page document on a surface of two rows of two bytes at address 1, in a
  memory of bytes 170: the four bytes of the buffer become 0, 0, 1, 1 and the bytes
  before and after it keep their value.
\<close>

lemma cre_render_page_example:
  "map (snd (cre_render_page (Some \<lparr>pages = 1\<rparr>) 0
      (Some \<lparr>data = 1, stride = 2, size_s = \<lparr>width = 2, height = 2\<rparr>,
         format = CRE_SURFACE_FORMAT_GRAY8\<rparr>) (\<lambda>a. 170))) [0, 1, 2, 3, 4, 5] =
   [170, 0, 0, 1, 1, 170]"
  by (simp add: cre_render_page_def render_rows.simps fill_row.simps)

section \<open>Claims\<close>

text \<open>
  C8. \<open>cre_render_page\<close> returns \<open>CRE_RESULT_OK\<close> exactly when the document
  pointer is non-null, the page index is below the document's page count, and the
  surface pointer is non-null with a non-null \<open>data\<close>, a nonzero stride, a nonzero
  width and height and a format other than \<open>CRE_SURFACE_FORMAT_INVALID\<close>. In every
  other case it returns \<open>CRE_RESULT_INVALID_ARGUMENT\<close> and the memory, so also the
  surface buffer, is as it was.
\<close>

theorem cre_render_page_result:
  "(fst (cre_render_page doc page_index surface mem) = CRE_RESULT_OK \<longleftrightarrow>
      (\<exists>d s. doc = Some d \<and> page_index < pages d \<and> surface = Some s \<and> data s \<noteq> 0
         \<and> stride s \<noteq> 0 \<and> width (size_s s) \<noteq> 0 \<and> height (size_s s) \<noteq> 0
         \<and> format s \<noteq> CRE_SURFACE_FORMAT_INVALID))
   \<and> (fst (cre_render_page doc page_index surface mem) \<noteq> CRE_RESULT_OK \<longrightarrow>
        cre_render_page doc page_index surface mem = (CRE_RESULT_INVALID_ARGUMENT, mem))"
  by (cases doc; cases surface) (auto simp: cre_render_page_def Let_def not_le)

text \<open>
  The theorem at two calls on a one-page document and a 2 by 2 surface: page 0 is
  rendered, page 1 is refused and the memory is untouched.
\<close>

theorem cre_render_page_result_witness:
  "fst (cre_render_page (Some \<lparr>pages = 1\<rparr>) 0
      (Some \<lparr>data = 1, stride = 2, size_s = \<lparr>width = 2, height = 2\<rparr>,
         format = CRE_SURFACE_FORMAT_GRAY8\<rparr>) (\<lambda>a. 0)) = CRE_RESULT_OK
   \<and> fst (cre_render_page (Some \<lparr>pages = 1\<rparr>) 1
      (Some \<lparr>data = 1, stride = 2, size_s = \<lparr>width = 2, height = 2\<rparr>,
         format = CRE_SURFACE_FORMAT_GRAY8\<rparr>) (\<lambda>a. 0)) \<noteq> CRE_RESULT_OK
   \<and> cre_render_page (Some \<lparr>pages = 1\<rparr>) 1
      (Some \<lparr>data = 1, stride = 2, size_s = \<lparr>width = 2, height = 2\<rparr>,
         format = CRE_SURFACE_FORMAT_GRAY8\<rparr>) (\<lambda>a. 0) = (CRE_RESULT_INVALID_ARGUMENT, \<lambda>a. 0)"
proof -
  let ?s = "Some \<lparr>data = 1, stride = 2, size_s = \<lparr>width = 2, height = 2\<rparr>,
    format = CRE_SURFACE_FORMAT_GRAY8\<rparr>"
  let ?d = "Some \<lparr>pages = 1\<rparr>"
  have ok: "\<exists>d s. ?d = Some d \<and> (0 :: u32) < pages d \<and> ?s = Some s \<and> data s \<noteq> 0
      \<and> stride s \<noteq> 0 \<and> width (size_s s) \<noteq> 0 \<and> height (size_s s) \<noteq> 0
      \<and> format s \<noteq> CRE_SURFACE_FORMAT_INVALID"
    by simp
  have no: "\<not> (\<exists>d s. ?d = Some d \<and> (1 :: u32) < pages d \<and> ?s = Some s \<and> data s \<noteq> 0
      \<and> stride s \<noteq> 0 \<and> width (size_s s) \<noteq> 0 \<and> height (size_s s) \<noteq> 0
      \<and> format s \<noteq> CRE_SURFACE_FORMAT_INVALID)"
    by simp
  from ok cre_render_page_result [of ?d 0 ?s "\<lambda>a. 0"]
  have "fst (cre_render_page ?d 0 ?s (\<lambda>a. 0)) = CRE_RESULT_OK"
    by blast
  moreover from no cre_render_page_result [of ?d 1 ?s "\<lambda>a. 0"]
  have "fst (cre_render_page ?d 1 ?s (\<lambda>a. 0)) \<noteq> CRE_RESULT_OK
      \<and> cre_render_page ?d 1 ?s (\<lambda>a. 0) = (CRE_RESULT_INVALID_ARGUMENT, \<lambda>a. 0)"
    by blast
  ultimately show ?thesis
    by blast
qed

text \<open>
  C9. The claim: a successful \<open>cre_render_page\<close> has written \<open>(page_index + y) mod 256\<close>
  to the byte at offset \<open>y * stride + x\<close> for every row \<open>y\<close> below the height and every
  \<open>x\<close> below the stride, and no other byte. The code computes the offset in
  \<open>uint32_t\<close>, so the claim holds on surfaces of at most \<open>2^32\<close> bytes
  (\<open>cre_render_page_fills_rows\<close>) and fails beyond. On a surface of three rows of
  \<open>2^31\<close> bytes at address 1, in a memory of bytes 170, rendering page 0 succeeds;
  the offset of row 2 wraps to 0, so the first byte of row 0 (offset 0, address 1)
  holds 2 where the claim has 0, and the first byte of row 2 (offset \<open>2^32\<close>) is
  still 170 where the claim has 2.
\<close>

theorem cre_render_page_offset_wraps:
  "fst (cre_render_page (Some \<lparr>pages = 1\<rparr>) 0
      (Some \<lparr>data = 1, stride = 2147483648, size_s = \<lparr>width = 2147483648, height = 3\<rparr>,
         format = CRE_SURFACE_FORMAT_GRAY8\<rparr>) (\<lambda>a. 170)) = CRE_RESULT_OK
   \<and> snd (cre_render_page (Some \<lparr>pages = 1\<rparr>) 0
      (Some \<lparr>data = 1, stride = 2147483648, size_s = \<lparr>width = 2147483648, height = 3\<rparr>,
         format = CRE_SURFACE_FORMAT_GRAY8\<rparr>) (\<lambda>a. 170)) (1 + 0) = 2
   \<and> snd (cre_render_page (Some \<lparr>pages = 1\<rparr>) 0
      (Some \<lparr>data = 1, stride = 2147483648, size_s = \<lparr>width = 2147483648, height = 3\<rparr>,
         format = CRE_SURFACE_FORMAT_GRAY8\<rparr>) (\<lambda>a. 170)) (1 + 2 * 2147483648) = 170"
proof -
  let ?mem = "(\<lambda>a. 170) :: memory"
  have run: "cre_render_page (Some \<lparr>pages = 1\<rparr>) 0
      (Some \<lparr>data = 1, stride = 2147483648, size_s = \<lparr>width = 2147483648, height = 3\<rparr>,
         format = CRE_SURFACE_FORMAT_GRAY8\<rparr>) ?mem =
      (CRE_RESULT_OK, render_rows 1 0 3 2147483648 0 ?mem)"
    by (simp add: cre_render_page_def)
  have "render_rows 1 0 3 2147483648 0 ?mem (1 + unat ((3 - 1) * 2147483648 + 0 :: u32)) =
      ucast (((0 :: u32) + (3 - 1)) AND 0xFF)"
    by (rule render_rows_last_row) simp_all
  then have first: "render_rows 1 0 3 2147483648 0 ?mem (1 + 0) = 2"
    by simp
  have "render_rows 1 0 3 2147483648 0 ?mem (1 + 2 * 2147483648) = ?mem (1 + 2 * 2147483648)"
    by (rule render_rows_outside) simp
  then have third: "render_rows 1 0 3 2147483648 0 ?mem (1 + 2 * 2147483648) = 170"
    by simp
  from first third show ?thesis
    unfolding run by simp
qed

text \<open>
  C10. A document returned by \<open>cre_open_document\<close> has page count 0, so every
  \<open>cre_render_page\<close> on it, at any page index, surface and memory, returns
  \<open>CRE_RESULT_INVALID_ARGUMENT\<close> and writes nothing; \<open>cre_layout_document\<close> on a
  non-null document and a non-null configuration returns \<open>CRE_RESULT_OK\<close> and
  leaves the page count 1, whatever the configuration holds; \<open>cre_page_count\<close> on a
  non-null document and a non-null \<open>out_pages\<close> returns \<open>CRE_RESULT_OK\<close> and stores
  the document's page count.
\<close>

theorem shim_page_count_lifecycle:
  "(cre_open_document path alloc out_status = (Some d, st) \<longrightarrow>
      pages d = 0
      \<and> (\<forall>page_index surface mem.
            cre_render_page (Some d) page_index surface mem = (CRE_RESULT_INVALID_ARGUMENT, mem)))
   \<and> cre_layout_document (Some d') (Some config) = (CRE_RESULT_OK, Some \<lparr>pages = 1\<rparr>)
   \<and> cre_page_count (Some d'') (Some old) = (CRE_RESULT_OK, Some (pages d''))"
  by (auto simp: cre_open_document_def cre_layout_document_def cre_page_count_def
      cre_render_page_def split: option.splits if_splits)

text \<open>
  The theorem at an opened document: the handle has no page, and page 0 cannot be
  rendered to a valid 2 by 2 surface.
\<close>

theorem shim_page_count_lifecycle_witness:
  "cre_open_document (Some ''book.epub'') True True = (Some \<lparr>pages = 0\<rparr>, Some CRE_RESULT_OK)
   \<and> pages \<lparr>pages = 0\<rparr> = 0
   \<and> cre_render_page (Some \<lparr>pages = 0\<rparr>) 0
        (Some \<lparr>data = 1, stride = 2, size_s = \<lparr>width = 2, height = 2\<rparr>,
           format = CRE_SURFACE_FORMAT_GRAY8\<rparr>) (\<lambda>a. 0) = (CRE_RESULT_INVALID_ARGUMENT, \<lambda>a. 0)"
proof -
  have opened: "cre_open_document (Some ''book.epub'') True True =
      (Some \<lparr>pages = 0\<rparr>, Some CRE_RESULT_OK)"
    by (simp add: cre_open_document_def)
  from opened
    shim_page_count_lifecycle [of "Some ''book.epub''" True True "\<lparr>pages = 0\<rparr>" "Some CRE_RESULT_OK"]
  show ?thesis
    by blast
qed

end
